theory Spec2Isabelle
  imports Main "HOL-Library.Sublist"
begin

section \<open>The telemetry generator launcher: \<^verbatim>\<open>generate_telemetry.py\<close>\<close>

text \<open>
  The script builds three command lines for the external program \<^verbatim>\<open>otelgen\<close>, starts
  one child process for each, installs a handler for SIGINT, waits for the children in
  order and, on every way out, asks each recorded child to terminate.

  The embedding is a state-passing one.  What the script does to the outside is an
  \<open>event\<close>; a run yields the list of its events in the order they happen, together with
  the exception that leaves \<^verbatim>\<open>run_otelgen\<close> (\<open>None\<close> when it returns).  What the
  outside does to the script (whether a launch, a wait or a termination request raises,
  and where SIGINT arrives) is read from a \<open>world\<close>.
\<close>

subsection \<open>Python values\<close>

text \<open>
  The exceptions the script tells apart: \<^verbatim>\<open>FileNotFoundError\<close>; any other instance of
  \<^verbatim>\<open>Exception\<close>, with the text that \<^verbatim>\<open>str(e)\<close> gives; and the two that are not
  instances of \<^verbatim>\<open>Exception\<close>, \<^verbatim>\<open>KeyboardInterrupt\<close> and \<^verbatim>\<open>SystemExit\<close> with its code.
\<close>

datatype exn = FileNotFoundError | Exception string | KeyboardInterrupt | SystemExit int

text \<open>\<^verbatim>\<open>str\<close> on an integer: decimal digits, a minus sign for negative numbers.\<close>

definition digit :: "nat \<Rightarrow> char" where
  "digit d = ''0123456789'' ! d"

function str_nat :: "nat \<Rightarrow> string" where
  "str_nat n = (if n < 10 then [digit n] else str_nat (n div 10) @ [digit (n mod 10)])"
  by pat_completeness auto
termination
  by (relation "measure (\<lambda>n. n)") auto

declare str_nat.simps [simp del]

definition str :: "int \<Rightarrow> string" where
  "str i = (if i < 0 then CHR ''-'' # str_nat (nat (- i)) else str_nat (nat i))"

text \<open>\<^verbatim>\<open>sep.join(xs)\<close>.\<close>

fun join :: "string \<Rightarrow> string list \<Rightarrow> string" where
  "join sep [] = []"
| "join sep [x] = x"
| "join sep (x # y # ys) = x @ sep @ join sep (y # ys)"

text \<open>
  The truth value of an optional integer in a condition: \<^verbatim>\<open>None\<close> and \<^verbatim>\<open>0\<close> are false,
  every other integer is true.
\<close>

fun truthy :: "int option \<Rightarrow> bool" where
  "truthy None = False"
| "truthy (Some d) = (d \<noteq> 0)"

subsection \<open>Events and the world\<close>

text \<open>
  A child handle is the position of its launch (0 for the first).  \<open>Spawn h cmd\<close> is a
  \<^verbatim>\<open>subprocess.Popen(cmd)\<close> that returned handle \<open>h\<close>; \<open>Spawn_failed cmd e\<close> is one that
  raised \<open>e\<close>.  \<open>Sigint\<close> marks the delivery of the interrupt signal.
\<close>

datatype event =
    Print string
  | Spawn nat "string list"
  | Spawn_failed "string list" exn
  | Install_handler
  | Sigint
  | Wait nat
  | Terminate nat

datatype wait_outcome = Exited | Wait_raises exn | Interrupted

datatype site = In_handler | In_cleanup

text \<open>
  \<open>on_popen w h cmd\<close>: what the launch with index \<open>h\<close> of \<open>cmd\<close> raises, if anything
  (a SIGINT that arrives during the launch phase, when Python's default handler is still
  in place, is \<open>Some KeyboardInterrupt\<close>).
  \<open>sigint_before_handler w\<close>: SIGINT arrives after the last launch and before
  \<^verbatim>\<open>signal.signal\<close> has installed the script's handler.
  \<open>on_wait w h\<close>: \<^verbatim>\<open>p.wait()\<close> returns, raises, or is interrupted by SIGINT, which runs the
  installed handler inside the call.
  \<open>on_terminate w s h\<close>: what \<^verbatim>\<open>p.terminate()\<close> raises, if anything, when called from
  the handler or from the cleanup loop.

  These are the points at which the model lets the signal arrive: during a launch, between
  the launch loop and line 50, and during a wait.  A signal that arrives while an
  \<^verbatim>\<open>except\<close> clause or the \<^verbatim>\<open>finally\<close> clause runs is outside the model, and \<^verbatim>\<open>print\<close> is
  taken never to raise.
\<close>

record world =
  on_popen :: "nat \<Rightarrow> string list \<Rightarrow> exn option"
  sigint_before_handler :: bool
  on_wait :: "nat \<Rightarrow> wait_outcome"
  on_terminate :: "site \<Rightarrow> nat \<Rightarrow> exn option"

subsection \<open>\<^verbatim>\<open>run_otelgen\<close>\<close>

text \<open>Lines 17 to 26: the arguments shared by the three invocations.\<close>

definition base_cmd :: "string \<Rightarrow> int \<Rightarrow> int option \<Rightarrow> string list" where
  "base_cmd endpoint rate duration =
     [''otelgen'',
      ''--otel-exporter-otlp-endpoint'', endpoint,
      ''--rate'', str rate,
      ''--service-name'', ''locol-test-generator'',
      ''--insecure'']
     @ (case duration of
          None \<Rightarrow> []
        | Some d \<Rightarrow> if truthy (Some d) then [''--duration'', str d] else [])"

text \<open>Lines 29 to 33: a dictionary, iterated in insertion order.\<close>

definition telemetry_commands :: "(string \<times> string list) list" where
  "telemetry_commands =
     [(''traces'', [''traces'', ''multi'']),
      (''metrics'', [''metrics'', ''sum'']),
      (''logs'', [''logs'', ''multi''])]"

text \<open>Line 40: the message printed before each launch.\<close>

definition starting :: "string \<Rightarrow> string list \<Rightarrow> event" where
  "starting telemetry_type cmd =
     Print (''Starting '' @ telemetry_type @ '' generator: '' @ join '' '' cmd)"

text \<open>
  Lines 38 to 42: the launch loop.  \<open>ps\<close> is the list \<^verbatim>\<open>processes\<close>, \<open>tr\<close> the events so
  far.  A launch that raises leaves the loop with the handles recorded until then.
\<close>

fun launch ::
  "world \<Rightarrow> string list \<Rightarrow> (string \<times> string list) list \<Rightarrow> nat list \<Rightarrow> event list
     \<Rightarrow> exn option \<times> nat list \<times> event list" where
  "launch w base [] ps tr = (None, ps, tr)"
| "launch w base ((telemetry_type, cmd_args) # rest) ps tr =
     (let cmd = base @ cmd_args;
          tr1 = tr @ [starting telemetry_type cmd];
          h = length ps
      in case on_popen w h cmd of
           Some e \<Rightarrow> (Some e, ps, tr1 @ [Spawn_failed cmd e])
         | None \<Rightarrow> launch w base rest (ps @ [h]) (tr1 @ [Spawn h cmd]))"

text \<open>
  Lines 44 to 48: the handler.  Its loop is not guarded: a termination request that
  raises ends the handler with that exception; otherwise the handler ends with
  \<^verbatim>\<open>sys.exit(0)\<close>, that is, it raises \<open>SystemExit 0\<close>.
\<close>

fun terminate_each :: "world \<Rightarrow> nat list \<Rightarrow> event list \<Rightarrow> exn option \<times> event list" where
  "terminate_each w [] tr = (None, tr)"
| "terminate_each w (p # ps) tr =
     (case on_terminate w In_handler p of
        Some e \<Rightarrow> (Some e, tr @ [Terminate p])
      | None \<Rightarrow> terminate_each w ps (tr @ [Terminate p]))"

definition stopping :: event where
  "stopping = Print (CHR 0x0A # ''Stopping telemetry generation...'')"

definition signal_handler :: "world \<Rightarrow> nat list \<Rightarrow> event list \<Rightarrow> exn \<times> event list" where
  "signal_handler w processes tr =
     (case terminate_each w processes (tr @ [stopping]) of
        (Some e, tr') \<Rightarrow> (e, tr')
      | (None, tr') \<Rightarrow> (SystemExit 0, tr'))"

text \<open>
  Lines 53 and 54: the wait loop over \<open>ps\<close>, with \<open>processes\<close> the whole list the handler
  closes over.
\<close>

fun wait_each :: "world \<Rightarrow> nat list \<Rightarrow> nat list \<Rightarrow> event list \<Rightarrow> exn option \<times> event list" where
  "wait_each w processes [] tr = (None, tr)"
| "wait_each w processes (p # ps) tr =
     (case on_wait w p of
        Exited \<Rightarrow> wait_each w processes ps (tr @ [Wait p])
      | Wait_raises e \<Rightarrow> (Some e, tr @ [Wait p])
      | Interrupted \<Rightarrow>
          (case signal_handler w processes (tr @ [Wait p, Sigint]) of
             (e, tr') \<Rightarrow> (Some e, tr')))"

text \<open>
  Lines 37 to 54: the body of the \<^verbatim>\<open>try\<close> statement.  Until line 50 has run, SIGINT
  raises \<^verbatim>\<open>KeyboardInterrupt\<close>.
\<close>

definition try_body :: "world \<Rightarrow> string list \<Rightarrow> exn option \<times> nat list \<times> event list" where
  "try_body w base =
     (case launch w base telemetry_commands [] [] of
        (Some e, ps, tr) \<Rightarrow> (Some e, ps, tr)
      | (None, ps, tr) \<Rightarrow>
          if sigint_before_handler w then (Some KeyboardInterrupt, ps, tr @ [Sigint])
          else (case wait_each w ps ps (tr @ [Install_handler]) of
                  (r, tr') \<Rightarrow> (r, ps, tr')))"

text \<open>
  Lines 56 to 62: the \<^verbatim>\<open>except\<close> clauses, tried in order.  \<^verbatim>\<open>KeyboardInterrupt\<close> and
  \<^verbatim>\<open>SystemExit\<close> match neither and go on.
\<close>

fun except_clauses :: "exn option \<Rightarrow> event list \<Rightarrow> exn option \<times> event list" where
  "except_clauses None tr = (None, tr)"
| "except_clauses (Some FileNotFoundError) tr =
     (Some (SystemExit 1),
      tr @ [Print ''Error: otelgen not found. Please install it with:'',
            Print ''go install github.com/krzko/otelgen@latest''])"
| "except_clauses (Some (Exception msg)) tr =
     (Some (SystemExit 1), tr @ [Print (''Error running otelgen: '' @ msg)])"
| "except_clauses (Some e) tr = (Some e, tr)"

text \<open>
  Lines 63 to 69: the \<^verbatim>\<open>finally\<close> clause.  The bare \<^verbatim>\<open>except: pass\<close> drops whatever a
  termination request raises.
\<close>

fun cleanup :: "world \<Rightarrow> nat list \<Rightarrow> event list \<Rightarrow> event list" where
  "cleanup w [] tr = tr"
| "cleanup w (p # ps) tr =
     (case on_terminate w In_cleanup p of
        Some e \<Rightarrow> cleanup w ps (tr @ [Terminate p])
      | None \<Rightarrow> cleanup w ps (tr @ [Terminate p]))"

definition run_otelgen ::
  "world \<Rightarrow> string \<Rightarrow> int \<Rightarrow> int option \<Rightarrow> exn option \<times> event list" where
  "run_otelgen w endpoint rate duration =
     (case try_body w (base_cmd endpoint rate duration) of
        (r, ps, tr) \<Rightarrow>
          (case except_clauses r tr of
             (r', tr') \<Rightarrow> (r', cleanup w ps tr')))"

subsection \<open>\<^verbatim>\<open>main\<close>\<close>

text \<open>The parsed command line: \<^verbatim>\<open>--rate\<close> and \<^verbatim>\<open>--duration\<close> are read with \<^verbatim>\<open>type=int\<close>.\<close>

record args =
  endpoint :: string
  rate :: int
  duration :: "int option"

definition startup_output :: "args \<Rightarrow> event list" where
  "startup_output a =
     [Print ''Starting telemetry generation...'',
      Print (''Endpoint: '' @ endpoint a),
      Print (''Rate: '' @ str (rate a) @ '' seconds'')]
     @ (case duration a of
          None \<Rightarrow> []
        | Some d \<Rightarrow> if truthy (Some d) then [Print (''Duration: '' @ str d @ '' seconds'')] else [])
     @ [Print (CHR 0x0A # ''Press Ctrl+C to stop'')]"

definition main :: "world \<Rightarrow> args \<Rightarrow> exn option \<times> event list" where
  "main w a =
     (case run_otelgen w (endpoint a) (rate a) (duration a) of
        (r, tr) \<Rightarrow> (r, startup_output a @ tr))"

text \<open>
  The exit status the interpreter gives the process: 0 when \<^verbatim>\<open>main\<close> returns, the code
  of a \<^verbatim>\<open>SystemExit\<close>, 130 for a \<^verbatim>\<open>KeyboardInterrupt\<close> that nothing caught, 1 for any other
  exception that nothing caught.
\<close>

fun exit_status :: "exn option \<Rightarrow> int" where
  "exit_status None = 0"
| "exit_status (Some (SystemExit n)) = n"
| "exit_status (Some KeyboardInterrupt) = 130"
| "exit_status (Some e) = 1"

subsection \<open>Reading a run\<close>

text \<open>
  The children a run has started, with their command lines; the command lines of all its
  calls of \<^verbatim>\<open>Popen\<close>, whether they returned or raised; the handles it has waited for.
\<close>

fun spawned :: "event list \<Rightarrow> (nat \<times> string list) list" where
  "spawned [] = []"
| "spawned (Spawn h cmd # es) = (h, cmd) # spawned es"
| "spawned (e # es) = spawned es"

fun popen_calls :: "event list \<Rightarrow> string list list" where
  "popen_calls [] = []"
| "popen_calls (Spawn h cmd # es) = cmd # popen_calls es"
| "popen_calls (Spawn_failed cmd e # es) = cmd # popen_calls es"
| "popen_calls (e # es) = popen_calls es"

fun waits :: "event list \<Rightarrow> nat list" where
  "waits [] = []"
| "waits (Wait h # es) = h # waits es"
| "waits (e # es) = waits es"

text \<open>Line 39 for each entry of the dictionary: the three command lines.\<close>

definition invocations :: "string \<Rightarrow> int \<Rightarrow> int option \<Rightarrow> string list list" where
  "invocations e r d =
     map (\<lambda>(telemetry_type, cmd_args). base_cmd e r d @ cmd_args) telemetry_commands"

text \<open>
  The events of the first \<open>k\<close> launches when each of them returns, and the events of a
  launch phase whose launch number \<open>k\<close> raises \<open>x\<close>.
\<close>

definition launched :: "string \<Rightarrow> int \<Rightarrow> int option \<Rightarrow> nat \<Rightarrow> event list" where
  "launched e r d k =
     concat (map (\<lambda>h. [starting (fst (telemetry_commands ! h)) (invocations e r d ! h),
                        Spawn h (invocations e r d ! h)])
                 [0..<k])"

definition failed_launch :: "string \<Rightarrow> int \<Rightarrow> int option \<Rightarrow> nat \<Rightarrow> exn \<Rightarrow> event list" where
  "failed_launch e r d k x =
     launched e r d k
     @ [starting (fst (telemetry_commands ! k)) (invocations e r d ! k),
        Spawn_failed (invocations e r d ! k) x]"

text \<open>
  A world in which nothing goes wrong: every launch returns, no signal arrives, every
  child exits, no termination request raises.
\<close>

definition quiet_world :: world where
  "quiet_world =
     \<lparr>on_popen = (\<lambda>h cmd. None), sigint_before_handler = False,
      on_wait = (\<lambda>h. Exited), on_terminate = (\<lambda>s h. None)\<rparr>"

section \<open>Properties\<close>

subsection \<open>The loops\<close>

lemma spawned_append: "spawned (xs @ ys) = spawned xs @ spawned ys"
  by (induction xs rule: spawned.induct) simp_all

lemma popen_calls_append: "popen_calls (xs @ ys) = popen_calls xs @ popen_calls ys"
  by (induction xs rule: popen_calls.induct) simp_all

lemma waits_append: "waits (xs @ ys) = waits xs @ waits ys"
  by (induction xs rule: waits.induct) simp_all

lemma observe_Terminate:
  "spawned (map Terminate ps) = []" "popen_calls (map Terminate ps) = []"
  "waits (map Terminate ps) = []"
  by (induction ps) simp_all

lemma observe_Wait:
  "spawned (map Wait ps) = []" "popen_calls (map Wait ps) = []" "waits (map Wait ps) = ps"
  by (induction ps) simp_all

lemma spawned_popen_calls: "popen_calls es = [] \<Longrightarrow> spawned es = []"
  by (induction es rule: popen_calls.induct) simp_all

lemma cleanup_eq: "cleanup w ps tr = tr @ map Terminate ps"
  by (induction ps arbitrary: tr) (simp_all split: option.split)

lemma invocations_nth:
  "invocations e r d ! 0 = base_cmd e r d @ [''traces'', ''multi'']"
  "invocations e r d ! 1 = base_cmd e r d @ [''metrics'', ''sum'']"
  "invocations e r d ! 2 = base_cmd e r d @ [''logs'', ''multi'']"
  "invocations e r d ! Suc 0 = base_cmd e r d @ [''metrics'', ''sum'']"
  "invocations e r d ! Suc (Suc 0) = base_cmd e r d @ [''logs'', ''multi'']"
  by (simp_all add: invocations_def telemetry_commands_def)

lemma invocations_eq:
  "invocations e r d =
     [base_cmd e r d @ [''traces'', ''multi''],
      base_cmd e r d @ [''metrics'', ''sum''],
      base_cmd e r d @ [''logs'', ''multi'']]"
  by (simp add: invocations_def telemetry_commands_def)

lemma launched_simps:
  "launched e r d 0 = []"
  "launched e r d (Suc k) =
     launched e r d k @ [starting (fst (telemetry_commands ! k)) (invocations e r d ! k),
                         Spawn k (invocations e r d ! k)]"
  by (simp_all add: launched_def)

lemma launch_all:
  assumes "\<forall>h<3. on_popen w h (invocations e r d ! h) = None"
  shows "launch w (base_cmd e r d) telemetry_commands [] [] = (None, [0..<3], launched e r d 3)"
proof -
  have "on_popen w 0 (invocations e r d ! 0) = None"
    "on_popen w (Suc 0) (invocations e r d ! Suc 0) = None"
    "on_popen w (Suc (Suc 0)) (invocations e r d ! Suc (Suc 0)) = None"
    using assms by (simp_all add: numeral_3_eq_3)
  then show ?thesis
    by (simp add: telemetry_commands_def invocations_nth launched_def upt_rec Let_def)
qed

lemma launch_raises:
  assumes "k < 3" and "\<forall>h<k. on_popen w h (invocations e r d ! h) = None"
    and "on_popen w k (invocations e r d ! k) = Some x"
  shows "launch w (base_cmd e r d) telemetry_commands [] [] = (Some x, [0..<k], failed_launch e r d k x)"
proof -
  consider "k = 0" | "k = Suc 0" | "k = Suc (Suc 0)" using assms(1) by arith
  then show ?thesis
  proof cases
    case 1
    with assms(3) show ?thesis
      by (simp add: telemetry_commands_def invocations_nth failed_launch_def launched_def Let_def)
  next
    case 2
    with assms(2) have "on_popen w 0 (invocations e r d ! 0) = None" by simp
    with 2 assms(3) show ?thesis
      by (simp add: telemetry_commands_def invocations_nth failed_launch_def launched_def Let_def)
  next
    case 3
    with assms(2) have "on_popen w 0 (invocations e r d ! 0) = None"
      "on_popen w (Suc 0) (invocations e r d ! Suc 0) = None" by simp_all
    with 3 assms(3) show ?thesis
      by (simp add: telemetry_commands_def invocations_nth failed_launch_def launched_def upt_rec Let_def)
  qed
qed

text \<open>Every launch phase is one of these.\<close>

lemma launch_cases:
  obtains (all) "\<forall>h<3. on_popen w h (invocations e r d ! h) = None"
  | (raises) k x where "k < 3" "\<forall>h<k. on_popen w h (invocations e r d ! h) = None"
      "on_popen w k (invocations e r d ! k) = Some x"
proof (cases "\<forall>h<3. on_popen w h (invocations e r d ! h) = None")
  case True
  then show ?thesis by (rule all)
next
  case False
  define k where "k = (LEAST h. on_popen w h (invocations e r d ! h) \<noteq> None)"
  from False obtain h where h: "h < 3" "on_popen w h (invocations e r d ! h) \<noteq> None" by auto
  have 1: "on_popen w k (invocations e r d ! k) \<noteq> None"
    unfolding k_def using h(2) by (rule LeastI)
  have "k \<le> h" unfolding k_def using h(2) by (rule Least_le)
  with h(1) have 2: "k < 3" by simp
  have 3: "\<forall>j<k. on_popen w j (invocations e r d ! j) = None"
    unfolding k_def using not_less_Least by blast
  from 1 obtain x where "on_popen w k (invocations e r d ! k) = Some x" by auto
  with 2 3 show ?thesis by (rule raises)
qed

lemma observe_Print:
  "spawned (map Print ms) = []" "popen_calls (map Print ms) = []" "waits (map Print ms) = []"
  by (induction ms) simp_all

lemma length_invocations: "length (invocations e r d) = 3"
  by (simp add: invocations_def telemetry_commands_def)

lemma observe_launched:
  assumes "k \<le> 3"
  shows "spawned (launched e r d k) = map (\<lambda>h. (h, invocations e r d ! h)) [0..<k]"
    and "popen_calls (launched e r d k) = take k (invocations e r d)"
    and "waits (launched e r d k) = []"
  using assms
  by (induction k)
    (simp_all add: launched_simps spawned_append popen_calls_append waits_append starting_def
      take_Suc_conv_app_nth length_invocations)

lemma observe_failed_launch:
  assumes "k < 3"
  shows "spawned (failed_launch e r d k x) = map (\<lambda>h. (h, invocations e r d ! h)) [0..<k]"
    and "popen_calls (failed_launch e r d k x) = take (Suc k) (invocations e r d)"
    and "waits (failed_launch e r d k x) = []"
  using assms
  by (simp_all add: failed_launch_def observe_launched spawned_append popen_calls_append
      waits_append starting_def take_Suc_conv_app_nth length_invocations)

lemma terminate_each_all:
  "\<forall>p\<in>set ps. on_terminate w In_handler p = None
     \<Longrightarrow> terminate_each w ps tr = (None, tr @ map Terminate ps)"
  by (induction ps arbitrary: tr) simp_all

lemma terminate_each_shape:
  "\<exists>k. snd (terminate_each w ps tr) = tr @ map Terminate (take k ps)"
proof (induction ps arbitrary: tr)
  case Nil
  then show ?case by simp
next
  case (Cons p ps)
  show ?case
  proof (cases "on_terminate w In_handler p")
    case None
    from Cons.IH [of "tr @ [Terminate p]"] obtain k
      where "snd (terminate_each w ps (tr @ [Terminate p])) = (tr @ [Terminate p]) @ map Terminate (take k ps)" ..
    with None have "snd (terminate_each w (p # ps) tr) = tr @ map Terminate (take (Suc k) (p # ps))"
      by simp
    then show ?thesis ..
  next
    case (Some x)
    then have "snd (terminate_each w (p # ps) tr) = tr @ map Terminate (take (Suc 0) (p # ps))"
      by simp
    then show ?thesis ..
  qed
qed

lemma signal_handler_all:
  "\<forall>p\<in>set ps. on_terminate w In_handler p = None
     \<Longrightarrow> signal_handler w ps tr = (SystemExit 0, tr @ stopping # map Terminate ps)"
  by (simp add: signal_handler_def terminate_each_all)

lemma signal_handler_shape:
  "\<exists>k. snd (signal_handler w ps tr) = tr @ stopping # map Terminate (take k ps)"
proof -
  from terminate_each_shape [of w ps "tr @ [stopping]"] obtain k
    where "snd (terminate_each w ps (tr @ [stopping])) = (tr @ [stopping]) @ map Terminate (take k ps)" ..
  then have "snd (signal_handler w ps tr) = tr @ stopping # map Terminate (take k ps)"
    by (cases "terminate_each w ps (tr @ [stopping])") (auto simp: signal_handler_def split: option.split)
  then show ?thesis ..
qed

lemma wait_each_all:
  "\<forall>p\<in>set ps. on_wait w p = Exited \<Longrightarrow> wait_each w procs ps tr = (None, tr @ map Wait ps)"
  by (induction ps arbitrary: tr) simp_all

lemma wait_each_raises:
  "k < length ps \<Longrightarrow> \<forall>j<k. on_wait w (ps ! j) = Exited \<Longrightarrow> on_wait w (ps ! k) = Wait_raises x
     \<Longrightarrow> wait_each w procs ps tr = (Some x, tr @ map Wait (take (Suc k) ps))"
proof (induction ps arbitrary: k tr)
  case Nil
  then show ?case by simp
next
  case (Cons p ps)
  show ?case
  proof (cases k)
    case 0
    with Cons.prems show ?thesis by simp
  next
    case (Suc k')
    with Cons.prems have "on_wait w p = Exited" by auto
    moreover from Suc Cons.prems
    have "wait_each w procs ps (tr @ [Wait p]) = (Some x, (tr @ [Wait p]) @ map Wait (take (Suc k') ps))"
      by (intro Cons.IH) auto
    ultimately show ?thesis using Suc by simp
  qed
qed

lemma wait_each_interrupted:
  "k < length ps \<Longrightarrow> \<forall>j<k. on_wait w (ps ! j) = Exited \<Longrightarrow> on_wait w (ps ! k) = Interrupted
     \<Longrightarrow> wait_each w procs ps tr =
          (Some (fst (signal_handler w procs (tr @ map Wait (take (Suc k) ps) @ [Sigint]))),
           snd (signal_handler w procs (tr @ map Wait (take (Suc k) ps) @ [Sigint])))"
proof (induction ps arbitrary: k tr)
  case Nil
  then show ?case by simp
next
  case (Cons p ps)
  show ?case
  proof (cases k)
    case 0
    with Cons.prems show ?thesis by (simp add: case_prod_beta)
  next
    case (Suc k')
    with Cons.prems have "on_wait w p = Exited" by auto
    moreover from Suc Cons.prems
    have "wait_each w procs ps (tr @ [Wait p]) =
          (Some (fst (signal_handler w procs ((tr @ [Wait p]) @ map Wait (take (Suc k') ps) @ [Sigint]))),
           snd (signal_handler w procs ((tr @ [Wait p]) @ map Wait (take (Suc k') ps) @ [Sigint])))"
      by (intro Cons.IH) auto
    ultimately show ?thesis using Suc by simp
  qed
qed

text \<open>What the wait phase adds: no launch, and waits for an initial part of the list, in order.\<close>

lemma wait_each_shape:
  "\<exists>new. snd (wait_each w procs ps tr) = tr @ new \<and> popen_calls new = [] \<and> prefix (waits new) ps"
proof (induction ps arbitrary: tr)
  case Nil
  have "snd (wait_each w procs [] tr) = tr @ [] \<and> popen_calls [] = [] \<and> prefix (waits []) []"
    by simp
  then show ?case ..
next
  case (Cons p ps)
  show ?case
  proof (cases "on_wait w p")
    case Exited
    from Cons.IH [of "tr @ [Wait p]"] obtain new
      where new: "snd (wait_each w procs ps (tr @ [Wait p])) = (tr @ [Wait p]) @ new"
        "popen_calls new = []" "prefix (waits new) ps"
      by blast
    with Exited have "snd (wait_each w procs (p # ps) tr) = tr @ (Wait p # new)
        \<and> popen_calls (Wait p # new) = [] \<and> prefix (waits (Wait p # new)) (p # ps)"
      by simp
    then show ?thesis ..
  next
    case (Wait_raises x)
    then have "snd (wait_each w procs (p # ps) tr) = tr @ [Wait p]
        \<and> popen_calls [Wait p] = [] \<and> prefix (waits [Wait p]) (p # ps)"
      by simp
    then show ?thesis ..
  next
    case Interrupted
    from signal_handler_shape [of w procs "tr @ [Wait p, Sigint]"] obtain k
      where "snd (signal_handler w procs (tr @ [Wait p, Sigint]))
               = (tr @ [Wait p, Sigint]) @ stopping # map Terminate (take k procs)" ..
    with Interrupted
    have "snd (wait_each w procs (p # ps) tr) = tr @ (Wait p # Sigint # stopping # map Terminate (take k procs))
        \<and> popen_calls (Wait p # Sigint # stopping # map Terminate (take k procs)) = []
        \<and> prefix (waits (Wait p # Sigint # stopping # map Terminate (take k procs))) (p # ps)"
      by (simp add: case_prod_beta stopping_def observe_Terminate)
    then show ?thesis ..
  qed
qed

lemma except_clauses_shape: "\<exists>ms. snd (except_clauses x tr) = tr @ map Print ms"
proof (cases "(x, tr)" rule: except_clauses.cases)
  case 1
  then have "snd (except_clauses x tr) = tr @ map Print []" by simp
  then show ?thesis ..
next
  case 2
  then have "snd (except_clauses x tr) = tr @ map Print [''Error: otelgen not found. Please install it with:'',
            ''go install github.com/krzko/otelgen@latest'']" by simp
  then show ?thesis ..
next
  case (3 msg)
  then have "snd (except_clauses x tr) = tr @ map Print [''Error running otelgen: '' @ msg]" by simp
  then show ?thesis ..
next
  case "4_1"
  then have "snd (except_clauses x tr) = tr @ map Print []" by simp
  then show ?thesis ..
next
  case "4_2"
  then have "snd (except_clauses x tr) = tr @ map Print []" by simp
  then show ?thesis ..
qed

subsection \<open>The shape of a run\<close>

lemma run_launched:
  assumes "\<forall>h<3. on_popen w h (invocations e r d ! h) = None"
  shows "run_otelgen w e r d =
    (if sigint_before_handler w
     then (Some KeyboardInterrupt, launched e r d 3 @ [Sigint] @ map Terminate [0..<3])
     else (fst (except_clauses (fst (wait_each w [0..<3] [0..<3] (launched e r d 3 @ [Install_handler])))
                 (snd (wait_each w [0..<3] [0..<3] (launched e r d 3 @ [Install_handler])))),
           snd (except_clauses (fst (wait_each w [0..<3] [0..<3] (launched e r d 3 @ [Install_handler])))
                 (snd (wait_each w [0..<3] [0..<3] (launched e r d 3 @ [Install_handler]))))
           @ map Terminate [0..<3]))"
  by (simp add: run_otelgen_def try_body_def launch_all [OF assms] cleanup_eq case_prod_beta)

lemma run_raised:
  assumes "k < 3" and "\<forall>h<k. on_popen w h (invocations e r d ! h) = None"
    and "on_popen w k (invocations e r d ! k) = Some x"
  shows "run_otelgen w e r d =
    (fst (except_clauses (Some x) (failed_launch e r d k x)),
     snd (except_clauses (Some x) (failed_launch e r d k x)) @ map Terminate [0..<k])"
  by (simp add: run_otelgen_def try_body_def launch_raises [OF assms] cleanup_eq case_prod_beta)

lemma run_cases:
  obtains (all) x new where "\<forall>h<3. on_popen w h (invocations e r d ! h) = None"
      "run_otelgen w e r d = (x, launched e r d 3 @ new @ map Terminate [0..<3])"
      "popen_calls new = []" "prefix (waits new) [0..<3]"
  | (raised) k x x' new where "k < 3" "\<forall>h<k. on_popen w h (invocations e r d ! h) = None"
      "on_popen w k (invocations e r d ! k) = Some x"
      "run_otelgen w e r d = (x', failed_launch e r d k x @ new @ map Terminate [0..<k])"
      "popen_calls new = []" "waits new = []"
proof (cases w e r d rule: launch_cases)
  case all': all
  show ?thesis
  proof (cases "sigint_before_handler w")
    case True
    with all' have "run_otelgen w e r d = (Some KeyboardInterrupt, launched e r d 3 @ [Sigint] @ map Terminate [0..<3])"
      by (simp add: run_launched)
    moreover have "popen_calls [Sigint] = []" "prefix (waits [Sigint]) [0..<3]" by simp_all
    ultimately show ?thesis using all' by (intro all)
  next
    case False
    let ?tr = "launched e r d 3 @ [Install_handler]"
    obtain new where new: "snd (wait_each w [0..<3] [0..<3] ?tr) = ?tr @ new"
      "popen_calls new = []" "prefix (waits new) [0..<3]"
      using wait_each_shape [of w "[0..<3]" "[0..<3]" ?tr] by blast
    obtain ms where ms: "snd (except_clauses (fst (wait_each w [0..<3] [0..<3] ?tr)) (?tr @ new))
        = (?tr @ new) @ map Print ms"
      using except_clauses_shape by blast
    from all' False new(1) ms
    have "run_otelgen w e r d =
        (fst (except_clauses (fst (wait_each w [0..<3] [0..<3] ?tr)) (?tr @ new)),
         launched e r d 3 @ (Install_handler # new @ map Print ms) @ map Terminate [0..<3])"
      by (simp add: run_launched)
    moreover from new have "popen_calls (Install_handler # new @ map Print ms) = []"
      "prefix (waits (Install_handler # new @ map Print ms)) [0..<3]"
      by (simp_all add: popen_calls_append waits_append observe_Print)
    ultimately show ?thesis using all' by (intro all)
  qed
next
  case (raises k x)
  obtain ms where ms: "snd (except_clauses (Some x) (failed_launch e r d k x))
      = failed_launch e r d k x @ map Print ms"
    using except_clauses_shape by blast
  with raises have "run_otelgen w e r d =
      (fst (except_clauses (Some x) (failed_launch e r d k x)),
       failed_launch e r d k x @ map Print ms @ map Terminate [0..<k])"
    by (simp add: run_raised)
  moreover have "popen_calls (map Print ms) = []" "waits (map Print ms) = []"
    by (simp_all add: observe_Print)
  ultimately show ?thesis using raises by (intro raised)
qed

subsection \<open>What a run launches, waits for and terminates\<close>

lemma split_after_launch:
  assumes "xs @ ys = pre @ Wait h # post" and "waits xs = []"
  obtains us where "pre = xs @ us" "ys = us @ Wait h # post"
proof -
  from assms(1) consider us where "xs = pre @ us" "us @ ys = Wait h # post"
    | us where "xs @ us = pre" "ys = us @ Wait h # post"
    by (auto simp: append_eq_append_conv2)
  then show ?thesis
  proof cases
    case 1
    show ?thesis
    proof (cases us)
      case Nil
      with 1 have "pre = xs @ []" "ys = [] @ Wait h # post" by simp_all
      then show ?thesis by (rule that)
    next
      case (Cons u us')
      with 1 have "xs = pre @ Wait h # us'" by simp
      with assms(2) show ?thesis by (simp add: waits_append)
    qed
  next
    case 2
    then have "pre = xs @ us" "ys = us @ Wait h # post" by simp_all
    then show ?thesis by (rule that)
  qed
qed

lemma map_nth_upt: "k \<le> length xs \<Longrightarrow> map (\<lambda>h. xs ! h) [0..<k] = take k xs"
proof -
  assume k: "k \<le> length xs"
  have "take k xs = take k (map (\<lambda>h. xs ! h) [0..<length xs])"
    by (simp only: map_nth)
  also have "\<dots> = map (\<lambda>h. xs ! h) (take k [0..<length xs])"
    by (simp only: take_map)
  also have "take k [0..<length xs] = [0..<k]"
    using k by simp
  finally show ?thesis by simp
qed

lemma distinct_invocations: "distinct (invocations e r d)"
  by (simp add: invocations_eq)

lemma spawned_run_prefix:
  "prefix (map snd (spawned (snd (run_otelgen w e r d)))) (invocations e r d)"
proof (cases w e r d rule: run_cases)
  case (all x new)
  then have "map snd (spawned (snd (run_otelgen w e r d))) = invocations e r d"
    by (simp add: spawned_append observe_launched observe_Terminate spawned_popen_calls
        invocations_eq invocations_nth upt_rec)
  then show ?thesis by simp
next
  case (raised k x x' new)
  from \<open>k < 3\<close> have "map (\<lambda>h. invocations e r d ! h) [0..<k] = take k (invocations e r d)"
    by (simp add: map_nth_upt length_invocations)
  with raised have "map snd (spawned (snd (run_otelgen w e r d))) = take k (invocations e r d)"
    by (simp add: spawned_append observe_failed_launch observe_Terminate spawned_popen_calls o_def)
  then show ?thesis by (simp add: take_is_prefix)
qed

lemma popen_calls_run:
  "popen_calls (snd (run_otelgen w e r d)) \<noteq> []
   \<and> prefix (popen_calls (snd (run_otelgen w e r d))) (invocations e r d)"
proof (cases w e r d rule: run_cases)
  case (all x new)
  then have "popen_calls (snd (run_otelgen w e r d)) = invocations e r d"
    by (simp add: popen_calls_append observe_launched observe_Terminate length_invocations)
  then show ?thesis by (simp add: invocations_eq)
next
  case (raised k x x' new)
  then have "popen_calls (snd (run_otelgen w e r d)) = take (Suc k) (invocations e r d)"
    by (simp add: popen_calls_append observe_failed_launch observe_Terminate)
  then show ?thesis by (simp add: take_is_prefix invocations_eq)
qed

lemma spawned_run_all:
  assumes "\<forall>h<3. on_popen w h (invocations e r d ! h) = None"
  shows "spawned (snd (run_otelgen w e r d)) =
           [(0, invocations e r d ! 0), (1, invocations e r d ! 1), (2, invocations e r d ! 2)]"
proof (cases w e r d rule: run_cases)
  case (all x new)
  then show ?thesis
    by (simp add: spawned_append observe_launched observe_Terminate spawned_popen_calls upt_rec
        numeral_2_eq_2)
next
  case (raised k x x' new)
  with assms show ?thesis by simp
qed

text \<open>The list \<^verbatim>\<open>processes\<close> holds the handles of the children started so far.\<close>

lemma launch_handles:
  "launch w base items ps tr = (x, ps', tr') \<Longrightarrow> map fst (spawned tr) = ps
     \<Longrightarrow> map fst (spawned tr') = ps'"
proof (induction items arbitrary: ps tr)
  case Nil
  then show ?case by simp
next
  case (Cons item items)
  obtain t a where item: "item = (t, a)" by (cases item)
  show ?case
  proof (cases "on_popen w (length ps) (base @ a)")
    case None
    with Cons.prems item
    have "launch w base items (ps @ [length ps])
            (tr @ [starting t (base @ a)] @ [Spawn (length ps) (base @ a)]) = (x, ps', tr')"
      by (simp add: Let_def)
    moreover have "map fst (spawned (tr @ [starting t (base @ a)] @ [Spawn (length ps) (base @ a)]))
                     = ps @ [length ps]"
      using Cons.prems(2) by (simp add: spawned_append starting_def)
    ultimately show ?thesis by (rule Cons.IH)
  next
    case (Some y)
    with Cons.prems item show ?thesis
      by (auto simp: Let_def spawned_append starting_def)
  qed
qed

lemma try_body_handles:
  assumes "try_body w base = (x, ps, tr)"
  shows "ps = map fst (spawned tr)"
proof -
  obtain x0 ps0 tr0 where l: "launch w base telemetry_commands [] [] = (x0, ps0, tr0)"
    by (cases "launch w base telemetry_commands [] []")
  then have h: "map fst (spawned tr0) = ps0"
    by (rule launch_handles) simp
  show ?thesis
  proof (cases x0)
    case (Some y)
    with l assms h show ?thesis by (simp add: try_body_def)
  next
    case None
    show ?thesis
    proof (cases "sigint_before_handler w")
      case True
      with None l assms h show ?thesis by (auto simp: try_body_def spawned_append)
    next
      case False
      obtain new where "snd (wait_each w ps0 ps0 (tr0 @ [Install_handler])) = (tr0 @ [Install_handler]) @ new"
        "popen_calls new = []"
        using wait_each_shape [of w ps0 ps0 "tr0 @ [Install_handler]"] by blast
      with None False l assms h show ?thesis
        by (auto simp: try_body_def spawned_append spawned_popen_calls split: prod.splits)
    qed
  qed
qed

lemma spawned_except_clauses: "spawned (snd (except_clauses x tr)) = spawned tr"
proof -
  obtain ms where "snd (except_clauses x tr) = tr @ map Print ms"
    using except_clauses_shape by blast
  then show ?thesis by (simp add: spawned_append observe_Print)
qed

lemma run_ends_with_cleanup:
  assumes "try_body w (base_cmd e r d) = (x, ps, tr)"
  shows "run_otelgen w e r d = (fst (except_clauses x tr), snd (except_clauses x tr) @ map Terminate ps)"
    and "ps = map fst (spawned (snd (except_clauses x tr)))"
  using assms try_body_handles [OF assms]
  by (simp_all add: run_otelgen_def cleanup_eq case_prod_beta spawned_except_clauses)

text \<open>The functions read only their own part of the world.\<close>

lemma launch_cong:
  "on_popen w' = on_popen w \<Longrightarrow> launch w' base items ps tr = launch w base items ps tr"
  by (induction items arbitrary: ps tr) (auto simp: Let_def split: option.split)

lemma terminate_each_cong:
  "on_terminate w' In_handler = on_terminate w In_handler
     \<Longrightarrow> terminate_each w' ps tr = terminate_each w ps tr"
  by (induction ps arbitrary: tr) (auto split: option.split)

lemma wait_each_cong:
  "on_wait w' = on_wait w \<Longrightarrow> on_terminate w' In_handler = on_terminate w In_handler
     \<Longrightarrow> wait_each w' procs ps tr = wait_each w procs ps tr"
  by (induction ps arbitrary: tr)
    (auto simp: signal_handler_def terminate_each_cong [of w' w] split: wait_outcome.split)

lemma try_body_cleanup_outcomes:
  "try_body (w\<lparr>on_terminate := (on_terminate w)(In_cleanup := f)\<rparr>) base = try_body w base"
proof -
  let ?w = "w\<lparr>on_terminate := (on_terminate w)(In_cleanup := f)\<rparr>"
  have "launch ?w base telemetry_commands [] [] = launch w base telemetry_commands [] []"
    by (rule launch_cong) simp
  moreover have "wait_each ?w ps ps tr = wait_each w ps ps tr" for ps tr
    by (rule wait_each_cong) simp_all
  ultimately show ?thesis
    by (simp add: try_body_def split: prod.split option.split)
qed

lemma run_cleanup_outcomes:
  "run_otelgen (w\<lparr>on_terminate := (on_terminate w)(In_cleanup := f)\<rparr>) e r d = run_otelgen w e r d"
  by (simp add: run_otelgen_def try_body_cleanup_outcomes cleanup_eq)

lemma waits_run_prefix: "prefix (waits (snd (run_otelgen w e r d))) [0..<3]"
proof (cases w e r d rule: run_cases)
  case (all x new)
  then show ?thesis
    by (simp add: waits_append observe_launched observe_Terminate)
next
  case (raised k x x' new)
  then show ?thesis
    by (simp add: waits_append observe_failed_launch observe_Terminate)
qed

lemma spawned_before_wait:
  assumes "snd (run_otelgen w e r d) = pre @ Wait h # post"
  shows "spawned pre = [(0, invocations e r d ! 0), (1, invocations e r d ! 1), (2, invocations e r d ! 2)]"
    and "popen_calls post = []"
proof -
  have "spawned pre = [(0, invocations e r d ! 0), (1, invocations e r d ! 1), (2, invocations e r d ! 2)]
      \<and> popen_calls post = []"
  proof (cases w e r d rule: run_cases)
    case (all x new)
    with assms have "launched e r d 3 @ (new @ map Terminate [0..<3]) = pre @ Wait h # post"
      by simp
    moreover have "waits (launched e r d 3) = []"
      by (simp add: observe_launched)
    ultimately obtain us where us: "pre = launched e r d 3 @ us"
      "new @ map Terminate [0..<3] = us @ Wait h # post"
      by (rule split_after_launch)
    from all(3) have "popen_calls (new @ map Terminate [0..<3]) = []"
      by (simp add: popen_calls_append observe_Terminate)
    with us(2) have "popen_calls us = []" "popen_calls post = []"
      by (simp_all add: popen_calls_append)
    with us(1) show ?thesis
      by (simp add: spawned_append observe_launched spawned_popen_calls upt_rec numeral_2_eq_2)
  next
    case (raised k x x' new)
    then have "waits (snd (run_otelgen w e r d)) = []"
      by (simp add: waits_append observe_failed_launch observe_Terminate)
    with assms show ?thesis
      by (simp add: waits_append)
  qed
  then show "spawned pre = [(0, invocations e r d ! 0), (1, invocations e r d ! 1), (2, invocations e r d ! 2)]"
    and "popen_calls post = []"
    by simp_all
qed

text \<open>The run in which nothing goes wrong.\<close>

lemma run_undisturbed:
  assumes "\<forall>h<3. on_popen w h (invocations e r d ! h) = None" and "\<not> sigint_before_handler w"
    and "\<forall>h<3. on_wait w h = Exited"
  shows "run_otelgen w e r d =
    (None, launched e r d 3 @ [Install_handler] @ map Wait [0..<3] @ map Terminate [0..<3])"
proof -
  from assms(3) have "\<forall>p\<in>set [0..<3]. on_wait w p = Exited" by simp
  then have "wait_each w [0..<3] [0..<3] (launched e r d 3 @ [Install_handler])
      = (None, (launched e r d 3 @ [Install_handler]) @ map Wait [0..<3])"
    by (rule wait_each_all)
  with assms(1,2) show ?thesis
    by (simp add: run_launched)
qed

subsection \<open>Errors and the interrupt\<close>

lemma main_run:
  "main w \<lparr>endpoint = e, rate = r, duration = d\<rparr> =
     (fst (run_otelgen w e r d),
      startup_output \<lparr>endpoint = e, rate = r, duration = d\<rparr> @ snd (run_otelgen w e r d))"
  by (simp add: main_def case_prod_beta)

lemma run_missing_binary:
  assumes "k < 3" and "\<forall>h<k. on_popen w h (invocations e r d ! h) = None"
    and "on_popen w k (invocations e r d ! k) = Some FileNotFoundError"
  shows "run_otelgen w e r d =
    (Some (SystemExit 1),
     failed_launch e r d k FileNotFoundError
     @ [Print ''Error: otelgen not found. Please install it with:'',
        Print ''go install github.com/krzko/otelgen@latest'']
     @ map Terminate [0..<k])"
  by (simp add: run_raised [OF assms])

lemma run_launch_error:
  assumes "k < 3" and "\<forall>h<k. on_popen w h (invocations e r d ! h) = None"
    and "on_popen w k (invocations e r d ! k) = Some (Exception msg)"
  shows "run_otelgen w e r d =
    (Some (SystemExit 1),
     failed_launch e r d k (Exception msg)
     @ [Print (''Error running otelgen: '' @ msg)]
     @ map Terminate [0..<k])"
  by (simp add: run_raised [OF assms])

lemma run_wait_error:
  assumes "\<forall>h<3. on_popen w h (invocations e r d ! h) = None" and "\<not> sigint_before_handler w"
    and "k < 3" and "\<forall>h<k. on_wait w h = Exited" and "on_wait w k = Wait_raises (Exception msg)"
  shows "run_otelgen w e r d =
    (Some (SystemExit 1),
     launched e r d 3 @ [Install_handler] @ map Wait [0..<Suc k]
     @ [Print (''Error running otelgen: '' @ msg)]
     @ map Terminate [0..<3])"
proof -
  have "wait_each w [0..<3] [0..<3] (launched e r d 3 @ [Install_handler])
      = (Some (Exception msg), (launched e r d 3 @ [Install_handler]) @ map Wait (take (Suc k) [0..<3]))"
    using assms(3,4,5) by (intro wait_each_raises) simp_all
  with assms(1,2,3) show ?thesis
    by (simp add: run_launched)
qed

lemma run_interrupted:
  assumes "\<forall>h<3. on_popen w h (invocations e r d ! h) = None" and "\<not> sigint_before_handler w"
    and "k < 3" and "\<forall>h<k. on_wait w h = Exited" and "on_wait w k = Interrupted"
    and "\<forall>h<3. on_terminate w In_handler h = None"
  shows "run_otelgen w e r d =
    (Some (SystemExit 0),
     launched e r d 3 @ [Install_handler] @ map Wait [0..<Suc k]
     @ [Sigint, stopping] @ map Terminate [0..<3]
     @ map Terminate [0..<3])"
proof -
  let ?tr = "launched e r d 3 @ [Install_handler]"
  from assms(6) have "\<forall>p\<in>set [0..<3]. on_terminate w In_handler p = None" by simp
  then have h: "signal_handler w [0..<3] tr = (SystemExit 0, tr @ stopping # map Terminate [0..<3])" for tr
    by (rule signal_handler_all)
  have "wait_each w [0..<3] [0..<3] ?tr =
      (Some (fst (signal_handler w [0..<3] (?tr @ map Wait (take (Suc k) [0..<3]) @ [Sigint]))),
       snd (signal_handler w [0..<3] (?tr @ map Wait (take (Suc k) [0..<3]) @ [Sigint])))"
    using assms(3,4,5) by (intro wait_each_interrupted) simp_all
  with assms(1,2,3) show ?thesis
    by (simp add: run_launched h)
qed

subsection \<open>Decimal strings\<close>

lemma digit_inj: "a < 10 \<Longrightarrow> b < 10 \<Longrightarrow> digit a = digit b \<Longrightarrow> a = b"
proof -
  assume "a < 10" "b < 10" "digit a = digit b"
  moreover have "distinct ''0123456789''" by simp
  ultimately show "a = b"
    unfolding digit_def by (simp add: nth_eq_iff_index_eq)
qed

lemma digit_no_minus: "d < 10 \<Longrightarrow> digit d \<noteq> CHR ''-''"
proof -
  assume "d < 10"
  then have "''0123456789'' ! d \<in> set ''0123456789''"
    by (intro nth_mem) simp
  then show ?thesis
    unfolding digit_def by auto
qed

lemma str_nat_not_Nil: "str_nat n \<noteq> []"
  by (subst str_nat.simps) simp

lemma str_nat_no_minus: "CHR ''-'' \<notin> set (str_nat n)"
proof (induction n rule: str_nat.induct)
  case (1 n)
  show ?case
  proof (cases "n < 10")
    case True
    then show ?thesis
      using digit_no_minus [of n] by (subst str_nat.simps) auto
  next
    case False
    with "1.IH" show ?thesis
      using digit_no_minus [of "n mod 10"] by (subst str_nat.simps) auto
  qed
qed

lemma str_nat_inj: "str_nat a = str_nat b \<Longrightarrow> a = b"
proof (induction a arbitrary: b rule: str_nat.induct)
  case (1 a)
  show ?case
  proof (cases "a < 10")
    case a: True
    show ?thesis
    proof (cases "b < 10")
      case True
      with a "1.prems" show ?thesis
        by (simp add: str_nat.simps [of a] str_nat.simps [of b] digit_inj)
    next
      case False
      with a "1.prems" str_nat_not_Nil [of "b div 10"] show ?thesis
        by (simp add: str_nat.simps [of a] str_nat.simps [of b] Cons_eq_append_conv)
    qed
  next
    case a: False
    show ?thesis
    proof (cases "b < 10")
      case True
      with a "1.prems" str_nat_not_Nil [of "a div 10"] show ?thesis
        by (simp add: str_nat.simps [of a] str_nat.simps [of b] append_eq_Cons_conv)
    next
      case False
      with a "1.prems" have "str_nat (a div 10) = str_nat (b div 10)"
        and m: "digit (a mod 10) = digit (b mod 10)"
        by (simp_all add: str_nat.simps [of a] str_nat.simps [of b])
      with a have "a div 10 = b div 10"
        by (intro "1.IH") simp_all
      moreover from m have "a mod 10 = b mod 10"
        by (intro digit_inj) simp_all
      ultimately show ?thesis
        by (metis div_mult_mod_eq)
    qed
  qed
qed

lemma str_inj: "str a = str b \<Longrightarrow> a = b"
proof -
  assume eq: "str a = str b"
  consider "a < 0" "b < 0" | "a < 0" "\<not> b < 0" | "\<not> a < 0" "b < 0" | "\<not> a < 0" "\<not> b < 0"
    by blast
  then show "a = b"
  proof cases
    case 1
    with eq have "nat (- a) = nat (- b)"
      by (simp add: str_def str_nat_inj)
    with 1 show ?thesis by simp
  next
    case 2
    with eq have "str_nat (nat b) = CHR ''-'' # str_nat (nat (- a))"
      by (simp add: str_def)
    then have "CHR ''-'' \<in> set (str_nat (nat b))"
      by simp
    then show ?thesis by (simp add: str_nat_no_minus)
  next
    case 3
    with eq have "str_nat (nat a) = CHR ''-'' # str_nat (nat (- b))"
      by (simp add: str_def)
    then have "CHR ''-'' \<in> set (str_nat (nat a))"
      by simp
    then show ?thesis by (simp add: str_nat_no_minus)
  next
    case 4
    with eq have "nat a = nat b"
      by (simp add: str_def str_nat_inj)
    with 4 show ?thesis by simp
  qed
qed

lemma str_negative: "i < 0 \<Longrightarrow> str i = CHR ''-'' # str (- i)"
  by (simp add: str_def)

subsection \<open>The duration argument\<close>

lemma base_cmd_None:
  "base_cmd e r None =
     [''otelgen'', ''--otel-exporter-otlp-endpoint'', e, ''--rate'', str r,
      ''--service-name'', ''locol-test-generator'', ''--insecure'']"
  by (simp add: base_cmd_def)

lemma base_cmd_Some:
  "n \<noteq> 0 \<Longrightarrow> base_cmd e r (Some n) =
     [''otelgen'', ''--otel-exporter-otlp-endpoint'', e, ''--rate'', str r,
      ''--service-name'', ''locol-test-generator'', ''--insecure'', ''--duration'', str n]"
  by (simp add: base_cmd_def)

lemma base_cmd_zero: "base_cmd e r (Some 0) = base_cmd e r None"
  by (simp add: base_cmd_def)

lemma invocations_duration_inj:
  assumes "n \<noteq> 0" and "invocations e r (Some m) = invocations e r (Some n)"
  shows "m = n"
proof (cases "m = 0")
  case True
  with assms show ?thesis
    by (simp add: invocations_eq base_cmd_zero base_cmd_None base_cmd_Some)
next
  case False
  with assms have "str m = str n"
    by (simp add: invocations_eq base_cmd_Some)
  then show ?thesis by (rule str_inj)
qed

lemma run_zero_duration: "run_otelgen w e r (Some 0) = run_otelgen w e r None"
  by (simp add: run_otelgen_def base_cmd_zero)

section \<open>The claims\<close>

text \<open>
  C5: for every configuration, each of the three command lines is the name of the
  external program, then the OTLP endpoint, the rate, the fixed service name, the flag
  for insecure transport, the duration if one is passed, and last the pair of
  sub-commands of its signal type: \<^verbatim>\<open>traces multi\<close>, \<^verbatim>\<open>metrics sum\<close>, \<^verbatim>\<open>logs multi\<close>.
  Every run calls \<^verbatim>\<open>Popen\<close> with these command lines and no others, in this order,
  starting with the first.
\<close>

theorem invocation_arguments:
  "invocations e r d =
     [[''otelgen'', ''--otel-exporter-otlp-endpoint'', e, ''--rate'', str r,
       ''--service-name'', ''locol-test-generator'', ''--insecure'']
        @ (case d of None \<Rightarrow> [] | Some n \<Rightarrow> if n = 0 then [] else [''--duration'', str n])
        @ [''traces'', ''multi''],
      [''otelgen'', ''--otel-exporter-otlp-endpoint'', e, ''--rate'', str r,
       ''--service-name'', ''locol-test-generator'', ''--insecure'']
        @ (case d of None \<Rightarrow> [] | Some n \<Rightarrow> if n = 0 then [] else [''--duration'', str n])
        @ [''metrics'', ''sum''],
      [''otelgen'', ''--otel-exporter-otlp-endpoint'', e, ''--rate'', str r,
       ''--service-name'', ''locol-test-generator'', ''--insecure'']
        @ (case d of None \<Rightarrow> [] | Some n \<Rightarrow> if n = 0 then [] else [''--duration'', str n])
        @ [''logs'', ''multi'']]
   \<and> popen_calls (snd (run_otelgen w e r d)) \<noteq> []
   \<and> prefix (popen_calls (snd (run_otelgen w e r d))) (invocations e r d)"
proof -
  have "base_cmd e r d =
      [''otelgen'', ''--otel-exporter-otlp-endpoint'', e, ''--rate'', str r,
       ''--service-name'', ''locol-test-generator'', ''--insecure'']
        @ (case d of None \<Rightarrow> [] | Some n \<Rightarrow> if n = 0 then [] else [''--duration'', str n])"
    by (simp add: base_cmd_def split: option.split)
  then show ?thesis
    using popen_calls_run [of w e r d] by (simp add: invocations_eq)
qed

text \<open>
  C4: for every endpoint, rate and duration, one child is started for each workload
  type, the types being exactly \<^verbatim>\<open>traces\<close>, \<^verbatim>\<open>metrics\<close> and \<^verbatim>\<open>logs\<close>, and no child is
  ever replaced or started again.  The dictionary has these three keys; its three command
  lines differ; on every path of every run the children started are an initial part of
  them, in order, so none is started twice; and when no launch raises they are all
  three, with handles 0, 1 and 2.
\<close>

theorem one_child_per_workload:
  "map fst telemetry_commands = [''traces'', ''metrics'', ''logs'']
   \<and> invocations e r d = map (\<lambda>(telemetry_type, cmd_args). base_cmd e r d @ cmd_args) telemetry_commands
   \<and> distinct (invocations e r d)
   \<and> prefix (map snd (spawned (snd (run_otelgen w e r d)))) (invocations e r d)
   \<and> ((\<forall>h<3. on_popen w h (invocations e r d ! h) = None) \<longrightarrow>
        spawned (snd (run_otelgen w e r d)) =
          [(0, invocations e r d ! 0), (1, invocations e r d ! 1), (2, invocations e r d ! 2)])"
proof -
  have "map fst telemetry_commands = [''traces'', ''metrics'', ''logs'']"
    by (simp add: telemetry_commands_def)
  then show ?thesis
    using distinct_invocations [of e r d] spawned_run_prefix [of w e r d] spawned_run_all [of w e r d]
    by (simp add: invocations_def)
qed

theorem one_child_per_workload_witness:
  "on_popen quiet_world 0 (invocations ''localhost:4317'' 5 None ! 0) = None
   \<and> on_popen quiet_world 1 (invocations ''localhost:4317'' 5 None ! 1) = None
   \<and> on_popen quiet_world 2 (invocations ''localhost:4317'' 5 None ! 2) = None
   \<and> map snd (spawned (snd (run_otelgen quiet_world ''localhost:4317'' 5 None))) =
       [[''otelgen'', ''--otel-exporter-otlp-endpoint'', ''localhost:4317'', ''--rate'', ''5'',
         ''--service-name'', ''locol-test-generator'', ''--insecure'', ''traces'', ''multi''],
        [''otelgen'', ''--otel-exporter-otlp-endpoint'', ''localhost:4317'', ''--rate'', ''5'',
         ''--service-name'', ''locol-test-generator'', ''--insecure'', ''metrics'', ''sum''],
        [''otelgen'', ''--otel-exporter-otlp-endpoint'', ''localhost:4317'', ''--rate'', ''5'',
         ''--service-name'', ''locol-test-generator'', ''--insecure'', ''logs'', ''multi'']]"
proof -
  have "str 5 = ''5''"
    by (simp add: str_def str_nat.simps digit_def)
  then have "invocations ''localhost:4317'' 5 None =
       [[''otelgen'', ''--otel-exporter-otlp-endpoint'', ''localhost:4317'', ''--rate'', ''5'',
         ''--service-name'', ''locol-test-generator'', ''--insecure'', ''traces'', ''multi''],
        [''otelgen'', ''--otel-exporter-otlp-endpoint'', ''localhost:4317'', ''--rate'', ''5'',
         ''--service-name'', ''locol-test-generator'', ''--insecure'', ''metrics'', ''sum''],
        [''otelgen'', ''--otel-exporter-otlp-endpoint'', ''localhost:4317'', ''--rate'', ''5'',
         ''--service-name'', ''locol-test-generator'', ''--insecure'', ''logs'', ''multi'']]"
    by (simp add: invocations_eq base_cmd_def)
  moreover have "\<forall>h<3. on_popen quiet_world h (invocations ''localhost:4317'' 5 None ! h) = None"
    by (simp add: quiet_world_def)
  ultimately show ?thesis
    using one_child_per_workload [of "''localhost:4317''" 5 None quiet_world]
    by (simp add: quiet_world_def)
qed

text \<open>
  C7: on every way out of \<^verbatim>\<open>run_otelgen\<close> (the waits all return, an exception is
  raised, or the handler has run), a last pass asks every recorded child to terminate,
  and whatever such a request raises is dropped: it changes neither the events nor the
  exception the run ends with, hence not the exit status.  Whatever the \<^verbatim>\<open>try\<close>
  statement ends with, the run ends as its \<^verbatim>\<open>except\<close> clauses decide, its events end with
  one termination request for each handle in \<^verbatim>\<open>processes\<close>, these are the handles of all
  children started, and a world that differs only in what the requests of the last
  pass raise gives the same run.
\<close>

theorem cleanup_on_every_path:
  "(case try_body w (base_cmd e r d) of
      (x, ps, tr) \<Rightarrow>
        run_otelgen w e r d = (fst (except_clauses x tr), snd (except_clauses x tr) @ map Terminate ps)
        \<and> ps = map fst (spawned (snd (except_clauses x tr))))
   \<and> (\<exists>tr0. snd (run_otelgen w e r d) = tr0 @ map Terminate (map fst (spawned tr0)))
   \<and> run_otelgen (w\<lparr>on_terminate := (on_terminate w)(In_cleanup := f)\<rparr>) e r d = run_otelgen w e r d"
proof -
  obtain x ps tr where t: "try_body w (base_cmd e r d) = (x, ps, tr)"
    by (cases "try_body w (base_cmd e r d)")
  note c = run_ends_with_cleanup [OF t]
  from c have "snd (run_otelgen w e r d) =
      snd (except_clauses x tr) @ map Terminate (map fst (spawned (snd (except_clauses x tr))))"
    by simp
  then have "\<exists>tr0. snd (run_otelgen w e r d) = tr0 @ map Terminate (map fst (spawned tr0))" ..
  with t c show ?thesis
    by (simp add: run_cleanup_outcomes)
qed

text \<open>
  C8: in every run the three children are started, in the order traces, metrics, logs,
  before any wait begins, and the waits follow in the same order.  The handles waited
  for are an initial part of 0, 1, 2; wherever a wait occurs in the events of a run, the
  three children have been started before it, in order, and no launch follows it; and
  when nothing raises and no signal arrives, the waits are for 0, 1 and 2.
\<close>

theorem launches_before_waits:
  "prefix (waits (snd (run_otelgen w e r d))) [0, 1, 2]
   \<and> (\<forall>pre h post. snd (run_otelgen w e r d) = pre @ Wait h # post \<longrightarrow>
         spawned pre =
           [(0, invocations e r d ! 0), (1, invocations e r d ! 1), (2, invocations e r d ! 2)]
         \<and> popen_calls post = [])
   \<and> ((\<forall>h<3. on_popen w h (invocations e r d ! h) = None) \<and> \<not> sigint_before_handler w
        \<and> (\<forall>h<3. on_wait w h = Exited) \<longrightarrow>
       waits (snd (run_otelgen w e r d)) = [0, 1, 2])"
proof -
  have "prefix (waits (snd (run_otelgen w e r d))) [0, 1, 2]"
    using waits_run_prefix [of w e r d] by (simp add: upt_rec numeral_2_eq_2)
  moreover have "waits (snd (run_otelgen w e r d)) = [0, 1, 2]"
    if "\<forall>h<3. on_popen w h (invocations e r d ! h) = None" "\<not> sigint_before_handler w"
      "\<forall>h<3. on_wait w h = Exited"
    using run_undisturbed [OF that]
    by (simp add: waits_append observe_launched observe_Wait observe_Terminate upt_rec numeral_2_eq_2)
  ultimately show ?thesis
    using spawned_before_wait [of w e r d] by blast
qed

theorem launches_before_waits_witness:
  "on_popen quiet_world 0 (invocations ''localhost:4317'' 5 None ! 0) = None
   \<and> on_popen quiet_world 1 (invocations ''localhost:4317'' 5 None ! 1) = None
   \<and> on_popen quiet_world 2 (invocations ''localhost:4317'' 5 None ! 2) = None
   \<and> \<not> sigint_before_handler quiet_world
   \<and> on_wait quiet_world 0 = Exited \<and> on_wait quiet_world 1 = Exited \<and> on_wait quiet_world 2 = Exited
   \<and> snd (run_otelgen quiet_world ''localhost:4317'' 5 None) =
       (launched ''localhost:4317'' 5 None 3 @ [Install_handler])
       @ Wait 0 # [Wait 1, Wait 2, Terminate 0, Terminate 1, Terminate 2]
   \<and> map fst (spawned (launched ''localhost:4317'' 5 None 3 @ [Install_handler])) = [0, 1, 2]
   \<and> popen_calls [Wait 1, Wait 2, Terminate 0, Terminate 1, Terminate 2] = []
   \<and> waits (snd (run_otelgen quiet_world ''localhost:4317'' 5 None)) = [0, 1, 2]"
proof -
  have w: "\<forall>h<3. on_popen quiet_world h (invocations ''localhost:4317'' 5 None ! h) = None"
    "\<not> sigint_before_handler quiet_world" "\<forall>h<3. on_wait quiet_world h = Exited"
    by (simp_all add: quiet_world_def)
  have run: "snd (run_otelgen quiet_world ''localhost:4317'' 5 None) =
       (launched ''localhost:4317'' 5 None 3 @ [Install_handler])
       @ Wait 0 # [Wait 1, Wait 2, Terminate 0, Terminate 1, Terminate 2]"
    by (simp add: run_undisturbed [OF w] upt_rec numeral_2_eq_2)
  note c8 = launches_before_waits [of quiet_world "''localhost:4317''" 5 None]
  from c8 run have "spawned (launched ''localhost:4317'' 5 None 3 @ [Install_handler]) =
      [(0, invocations ''localhost:4317'' 5 None ! 0), (1, invocations ''localhost:4317'' 5 None ! 1),
       (2, invocations ''localhost:4317'' 5 None ! 2)]"
    "popen_calls [Wait 1, Wait 2, Terminate 0, Terminate 1, Terminate 2] = []"
    by blast+
  moreover from c8 w have "waits (snd (run_otelgen quiet_world ''localhost:4317'' 5 None)) = [0, 1, 2]"
    by blast
  ultimately show ?thesis
    using run by (simp add: quiet_world_def)
qed

text \<open>
  C2: when a launch raises \<^verbatim>\<open>FileNotFoundError\<close> (the program \<^verbatim>\<open>otelgen\<close> is not found),
  whichever launch it is, the run prints the two lines that say how to install it, calls
  \<^verbatim>\<open>Popen\<close> for none of the remaining workloads, asks the children already started to
  terminate in the last pass, and the process exits with status 1.
\<close>

theorem missing_binary:
  assumes "k < 3" and "\<forall>h<k. on_popen w h (invocations e r d ! h) = None"
    and "on_popen w k (invocations e r d ! k) = Some FileNotFoundError"
  shows "run_otelgen w e r d =
      (Some (SystemExit 1),
       failed_launch e r d k FileNotFoundError
       @ [Print ''Error: otelgen not found. Please install it with:'',
          Print ''go install github.com/krzko/otelgen@latest'']
       @ map Terminate [0..<k])
    \<and> popen_calls (snd (run_otelgen w e r d)) = take (Suc k) (invocations e r d)
    \<and> map fst (spawned (snd (run_otelgen w e r d))) = [0..<k]
    \<and> exit_status (fst (main w \<lparr>endpoint = e, rate = r, duration = d\<rparr>)) = 1"
proof -
  note run = run_missing_binary [OF assms]
  have "popen_calls (snd (run_otelgen w e r d)) = take (Suc k) (invocations e r d)"
    using assms(1) by (simp add: run popen_calls_append observe_failed_launch observe_Terminate)
  moreover have "map fst (spawned (snd (run_otelgen w e r d))) = [0..<k]"
    using assms(1)
    by (simp add: run spawned_append observe_failed_launch observe_Terminate o_def)
  ultimately show ?thesis
    by (simp add: run main_run)
qed

theorem missing_binary_witness:
  "on_popen (quiet_world\<lparr>on_popen := \<lambda>h cmd. Some FileNotFoundError\<rparr>) 0
       (invocations ''localhost:4317'' 5 None ! 0) = Some FileNotFoundError
   \<and> run_otelgen (quiet_world\<lparr>on_popen := \<lambda>h cmd. Some FileNotFoundError\<rparr>) ''localhost:4317'' 5 None =
       (Some (SystemExit 1),
        [starting ''traces'' (invocations ''localhost:4317'' 5 None ! 0),
         Spawn_failed (invocations ''localhost:4317'' 5 None ! 0) FileNotFoundError,
         Print ''Error: otelgen not found. Please install it with:'',
         Print ''go install github.com/krzko/otelgen@latest''])
   \<and> exit_status (fst (main (quiet_world\<lparr>on_popen := \<lambda>h cmd. Some FileNotFoundError\<rparr>)
         \<lparr>endpoint = ''localhost:4317'', rate = 5, duration = None\<rparr>)) = 1
   \<and> on_popen (quiet_world\<lparr>on_popen := \<lambda>h cmd. if h = 1 then Some FileNotFoundError else None\<rparr>) 0
       (invocations ''localhost:4317'' 5 None ! 0) = None
   \<and> on_popen (quiet_world\<lparr>on_popen := \<lambda>h cmd. if h = 1 then Some FileNotFoundError else None\<rparr>) 1
       (invocations ''localhost:4317'' 5 None ! 1) = Some FileNotFoundError
   \<and> run_otelgen (quiet_world\<lparr>on_popen := \<lambda>h cmd. if h = 1 then Some FileNotFoundError else None\<rparr>)
         ''localhost:4317'' 5 None =
       (Some (SystemExit 1),
        [starting ''traces'' (invocations ''localhost:4317'' 5 None ! 0),
         Spawn 0 (invocations ''localhost:4317'' 5 None ! 0),
         starting ''metrics'' (invocations ''localhost:4317'' 5 None ! 1),
         Spawn_failed (invocations ''localhost:4317'' 5 None ! 1) FileNotFoundError,
         Print ''Error: otelgen not found. Please install it with:'',
         Print ''go install github.com/krzko/otelgen@latest'',
         Terminate 0])"
proof -
  have t: "fst (telemetry_commands ! 0) = ''traces''" "fst (telemetry_commands ! Suc 0) = ''metrics''"
    by (simp_all add: telemetry_commands_def)
  show ?thesis
    using missing_binary [of 0 "quiet_world\<lparr>on_popen := \<lambda>h cmd. Some FileNotFoundError\<rparr>"
        "''localhost:4317''" 5 None]
      missing_binary [of 1 "quiet_world\<lparr>on_popen := \<lambda>h cmd. if h = 1 then Some FileNotFoundError else None\<rparr>"
        "''localhost:4317''" 5 None]
    by (simp add: failed_launch_def launched_def t)
qed

text \<open>
  C6: an error other than the missing program, raised by a launch or by a wait, is
  reported with its message, the run goes through the last pass that asks the children
  started to terminate, and the process exits with status 1.  An error is an instance
  of \<^verbatim>\<open>Exception\<close> that is not a \<^verbatim>\<open>FileNotFoundError\<close>.  The statement has the launch
  number \<open>k\<close> raising it, the wait number \<open>k\<close> raising it, and, covering both, the \<^verbatim>\<open>try\<close>
  statement ending with it.
\<close>

theorem other_error_reported:
  "(k < 3 \<and> (\<forall>h<k. on_popen w h (invocations e r d ! h) = None)
      \<and> on_popen w k (invocations e r d ! k) = Some (Exception msg) \<longrightarrow>
      run_otelgen w e r d =
        (Some (SystemExit 1),
         failed_launch e r d k (Exception msg)
         @ [Print (''Error running otelgen: '' @ msg)]
         @ map Terminate [0..<k])
      \<and> exit_status (fst (main w \<lparr>endpoint = e, rate = r, duration = d\<rparr>)) = 1)
   \<and> ((\<forall>h<3. on_popen w h (invocations e r d ! h) = None) \<and> \<not> sigint_before_handler w
      \<and> k < 3 \<and> (\<forall>h<k. on_wait w h = Exited) \<and> on_wait w k = Wait_raises (Exception msg) \<longrightarrow>
      run_otelgen w e r d =
        (Some (SystemExit 1),
         launched e r d 3 @ [Install_handler] @ map Wait [0..<Suc k]
         @ [Print (''Error running otelgen: '' @ msg)]
         @ map Terminate [0..<3])
      \<and> exit_status (fst (main w \<lparr>endpoint = e, rate = r, duration = d\<rparr>)) = 1)
   \<and> (try_body w (base_cmd e r d) = (Some (Exception msg), ps, tr) \<longrightarrow>
      run_otelgen w e r d =
        (Some (SystemExit 1), tr @ [Print (''Error running otelgen: '' @ msg)] @ map Terminate ps)
      \<and> ps = map fst (spawned tr)
      \<and> exit_status (fst (main w \<lparr>endpoint = e, rate = r, duration = d\<rparr>)) = 1)"
proof (intro conjI impI)
  assume a: "k < 3 \<and> (\<forall>h<k. on_popen w h (invocations e r d ! h) = None)
      \<and> on_popen w k (invocations e r d ! k) = Some (Exception msg)"
  then have run: "run_otelgen w e r d =
        (Some (SystemExit 1),
         failed_launch e r d k (Exception msg)
         @ [Print (''Error running otelgen: '' @ msg)]
         @ map Terminate [0..<k])"
    by (intro run_launch_error) simp_all
  then show "run_otelgen w e r d =
        (Some (SystemExit 1),
         failed_launch e r d k (Exception msg)
         @ [Print (''Error running otelgen: '' @ msg)]
         @ map Terminate [0..<k])" .
  from run show "exit_status (fst (main w \<lparr>endpoint = e, rate = r, duration = d\<rparr>)) = 1"
    by (simp add: main_run)
next
  assume a: "(\<forall>h<3. on_popen w h (invocations e r d ! h) = None) \<and> \<not> sigint_before_handler w
      \<and> k < 3 \<and> (\<forall>h<k. on_wait w h = Exited) \<and> on_wait w k = Wait_raises (Exception msg)"
  then have run: "run_otelgen w e r d =
        (Some (SystemExit 1),
         launched e r d 3 @ [Install_handler] @ map Wait [0..<Suc k]
         @ [Print (''Error running otelgen: '' @ msg)]
         @ map Terminate [0..<3])"
    by (intro run_wait_error) simp_all
  then show "run_otelgen w e r d =
        (Some (SystemExit 1),
         launched e r d 3 @ [Install_handler] @ map Wait [0..<Suc k]
         @ [Print (''Error running otelgen: '' @ msg)]
         @ map Terminate [0..<3])" .
  from run show "exit_status (fst (main w \<lparr>endpoint = e, rate = r, duration = d\<rparr>)) = 1"
    by (simp add: main_run)
next
  assume t: "try_body w (base_cmd e r d) = (Some (Exception msg), ps, tr)"
  from run_ends_with_cleanup [OF t]
  show run: "run_otelgen w e r d =
        (Some (SystemExit 1), tr @ [Print (''Error running otelgen: '' @ msg)] @ map Terminate ps)"
    by simp
  from try_body_handles [OF t] show "ps = map fst (spawned tr)" .
  from run show "exit_status (fst (main w \<lparr>endpoint = e, rate = r, duration = d\<rparr>)) = 1"
    by (simp add: main_run)
qed

theorem other_error_reported_witness:
  "on_popen (quiet_world\<lparr>on_popen := \<lambda>h cmd. if h = 1 then Some (Exception ''Permission denied'') else None\<rparr>) 0
       (invocations ''localhost:4317'' 5 None ! 0) = None
   \<and> on_popen (quiet_world\<lparr>on_popen := \<lambda>h cmd. if h = 1 then Some (Exception ''Permission denied'') else None\<rparr>) 1
       (invocations ''localhost:4317'' 5 None ! 1) = Some (Exception ''Permission denied'')
   \<and> run_otelgen (quiet_world\<lparr>on_popen := \<lambda>h cmd. if h = 1 then Some (Exception ''Permission denied'') else None\<rparr>)
         ''localhost:4317'' 5 None =
       (Some (SystemExit 1),
        [starting ''traces'' (invocations ''localhost:4317'' 5 None ! 0),
         Spawn 0 (invocations ''localhost:4317'' 5 None ! 0),
         starting ''metrics'' (invocations ''localhost:4317'' 5 None ! 1),
         Spawn_failed (invocations ''localhost:4317'' 5 None ! 1) (Exception ''Permission denied''),
         Print ''Error running otelgen: Permission denied'',
         Terminate 0])
   \<and> on_wait (quiet_world\<lparr>on_wait := \<lambda>h. if h = 1 then Wait_raises (Exception ''No child processes'') else Exited\<rparr>) 0
       = Exited
   \<and> on_wait (quiet_world\<lparr>on_wait := \<lambda>h. if h = 1 then Wait_raises (Exception ''No child processes'') else Exited\<rparr>) 1
       = Wait_raises (Exception ''No child processes'')
   \<and> run_otelgen (quiet_world\<lparr>on_wait := \<lambda>h. if h = 1 then Wait_raises (Exception ''No child processes'') else Exited\<rparr>)
         ''localhost:4317'' 5 None =
       (Some (SystemExit 1),
        launched ''localhost:4317'' 5 None 3
        @ [Install_handler, Wait 0, Wait 1,
           Print ''Error running otelgen: No child processes'',
           Terminate 0, Terminate 1, Terminate 2])
   \<and> exit_status (fst (main (quiet_world\<lparr>on_wait := \<lambda>h. if h = 1 then Wait_raises (Exception ''No child processes'') else Exited\<rparr>)
         \<lparr>endpoint = ''localhost:4317'', rate = 5, duration = None\<rparr>)) = 1"
proof -
  have t: "fst (telemetry_commands ! 0) = ''traces''" "fst (telemetry_commands ! Suc 0) = ''metrics''"
    by (simp_all add: telemetry_commands_def)
  show ?thesis
    using other_error_reported [of 1
        "quiet_world\<lparr>on_popen := \<lambda>h cmd. if h = 1 then Some (Exception ''Permission denied'') else None\<rparr>"
        "''localhost:4317''" 5 None "''Permission denied''"]
      other_error_reported [of 1
        "quiet_world\<lparr>on_wait := \<lambda>h. if h = 1 then Wait_raises (Exception ''No child processes'') else Exited\<rparr>"
        "''localhost:4317''" 5 None "''No child processes''"]
    by (simp add: failed_launch_def launched_def t quiet_world_def upt_rec numeral_2_eq_2)
qed

text \<open>
  C1, as the script has it: when all three children have been started, the handler has
  been installed, SIGINT arrives during one of the waits, and no termination request made
  by the handler raises, then the handler asks every child in \<^verbatim>\<open>processes\<close> to terminate,
  no wait follows the signal, the last pass repeats the requests, and the process exits
  with status 0.
\<close>

theorem interrupt_during_wait:
  assumes "\<forall>h<3. on_popen w h (invocations e r d ! h) = None" and "\<not> sigint_before_handler w"
    and "k < 3" and "\<forall>h<k. on_wait w h = Exited" and "on_wait w k = Interrupted"
    and "\<forall>h<3. on_terminate w In_handler h = None"
  shows "run_otelgen w e r d =
      (Some (SystemExit 0),
       launched e r d 3 @ [Install_handler] @ map Wait [0..<Suc k]
       @ [Sigint, stopping] @ map Terminate [0..<3]
       @ map Terminate [0..<3])
    \<and> waits (snd (run_otelgen w e r d)) = [0..<Suc k]
    \<and> exit_status (fst (main w \<lparr>endpoint = e, rate = r, duration = d\<rparr>)) = 0"
proof -
  note run = run_interrupted [OF assms]
  have "waits (snd (run_otelgen w e r d)) = [0..<Suc k]"
    by (simp add: run waits_append observe_launched observe_Wait observe_Terminate stopping_def
        del: upt_Suc)
  then show ?thesis
    by (simp add: run main_run)
qed

theorem interrupt_during_wait_witness:
  "on_wait (quiet_world\<lparr>on_wait := \<lambda>h. if h = 1 then Interrupted else Exited\<rparr>) 0 = Exited
   \<and> on_wait (quiet_world\<lparr>on_wait := \<lambda>h. if h = 1 then Interrupted else Exited\<rparr>) 1 = Interrupted
   \<and> run_otelgen (quiet_world\<lparr>on_wait := \<lambda>h. if h = 1 then Interrupted else Exited\<rparr>)
        ''localhost:4317'' 5 None =
       (Some (SystemExit 0),
        launched ''localhost:4317'' 5 None 3
        @ [Install_handler, Wait 0, Wait 1, Sigint, stopping,
           Terminate 0, Terminate 1, Terminate 2,
           Terminate 0, Terminate 1, Terminate 2])
   \<and> exit_status (fst (main (quiet_world\<lparr>on_wait := \<lambda>h. if h = 1 then Interrupted else Exited\<rparr>)
         \<lparr>endpoint = ''localhost:4317'', rate = 5, duration = None\<rparr>)) = 0"
  using interrupt_during_wait [of "quiet_world\<lparr>on_wait := \<lambda>h. if h = 1 then Interrupted else Exited\<rparr>"
      "''localhost:4317''" 5 None 1]
  by (simp add: quiet_world_def upt_rec numeral_2_eq_2)

text \<open>
  C1 as stated fails in two ways.  A signal that arrives after the third launch and before
  line 50 has installed the handler raises \<^verbatim>\<open>KeyboardInterrupt\<close>, which no \<^verbatim>\<open>except\<close>
  clause catches: the last pass runs and the process ends with a status that is not 0.
  And a termination request that raises inside the handler is an error like any other:
  it is reported and the process exits with status 1.
\<close>

theorem interrupt_exit_status_counterexample:
  "run_otelgen (quiet_world\<lparr>sigint_before_handler := True\<rparr>) ''localhost:4317'' 5 None =
     (Some KeyboardInterrupt,
      launched ''localhost:4317'' 5 None 3 @ [Sigint, Terminate 0, Terminate 1, Terminate 2])
   \<and> exit_status (fst (main (quiet_world\<lparr>sigint_before_handler := True\<rparr>)
        \<lparr>endpoint = ''localhost:4317'', rate = 5, duration = None\<rparr>)) \<noteq> 0
   \<and> run_otelgen (quiet_world\<lparr>on_wait := \<lambda>h. Interrupted,
          on_terminate := \<lambda>s h. if s = In_handler then Some (Exception ''Permission denied'') else None\<rparr>)
        ''localhost:4317'' 5 None =
     (Some (SystemExit 1),
      launched ''localhost:4317'' 5 None 3
      @ [Install_handler, Wait 0, Sigint, stopping, Terminate 0,
         Print ''Error running otelgen: Permission denied'',
         Terminate 0, Terminate 1, Terminate 2])
   \<and> exit_status (fst (main (quiet_world\<lparr>on_wait := \<lambda>h. Interrupted,
          on_terminate := \<lambda>s h. if s = In_handler then Some (Exception ''Permission denied'') else None\<rparr>)
        \<lparr>endpoint = ''localhost:4317'', rate = 5, duration = None\<rparr>)) = 1"
proof -
  let ?gap = "quiet_world\<lparr>sigint_before_handler := True\<rparr>"
  let ?deny = "quiet_world\<lparr>on_wait := \<lambda>h. Interrupted,
          on_terminate := \<lambda>s h. if s = In_handler then Some (Exception ''Permission denied'') else None\<rparr>"
  have "\<forall>h<3. on_popen ?gap h (invocations ''localhost:4317'' 5 None ! h) = None"
    by (simp add: quiet_world_def)
  then have gap: "run_otelgen ?gap ''localhost:4317'' 5 None =
     (Some KeyboardInterrupt,
      launched ''localhost:4317'' 5 None 3 @ [Sigint, Terminate 0, Terminate 1, Terminate 2])"
    by (simp add: run_launched quiet_world_def upt_rec numeral_2_eq_2)
  have "\<forall>h<3. on_popen ?deny h (invocations ''localhost:4317'' 5 None ! h) = None"
    by (simp add: quiet_world_def)
  then have deny: "run_otelgen ?deny ''localhost:4317'' 5 None =
     (Some (SystemExit 1),
      launched ''localhost:4317'' 5 None 3
      @ [Install_handler, Wait 0, Sigint, stopping, Terminate 0,
         Print ''Error running otelgen: Permission denied'',
         Terminate 0, Terminate 1, Terminate 2])"
    by (simp add: run_launched quiet_world_def upt_rec numeral_2_eq_2 signal_handler_def)
  show ?thesis
    by (simp add: gap deny main_run)
qed

text \<open>
  C3: for every configuration with a rate above 0, when no duration is given no command
  line has a duration argument, and when a duration is given every command line has
  \<^verbatim>\<open>--duration\<close> followed by that number in decimal, from which the number can be read
  back.  The duration of a configuration, when given, is a positive integer; the
  statement needs only that it is not 0, so it holds for every positive duration.
\<close>

theorem duration_argument:
  assumes "0 < r"
  shows "invocations e r None =
      [[''otelgen'', ''--otel-exporter-otlp-endpoint'', e, ''--rate'', str r,
        ''--service-name'', ''locol-test-generator'', ''--insecure'', ''traces'', ''multi''],
       [''otelgen'', ''--otel-exporter-otlp-endpoint'', e, ''--rate'', str r,
        ''--service-name'', ''locol-test-generator'', ''--insecure'', ''metrics'', ''sum''],
       [''otelgen'', ''--otel-exporter-otlp-endpoint'', e, ''--rate'', str r,
        ''--service-name'', ''locol-test-generator'', ''--insecure'', ''logs'', ''multi'']]
    \<and> (n \<noteq> 0 \<longrightarrow> invocations e r (Some n) =
      [[''otelgen'', ''--otel-exporter-otlp-endpoint'', e, ''--rate'', str r,
        ''--service-name'', ''locol-test-generator'', ''--insecure'',
        ''--duration'', str n, ''traces'', ''multi''],
       [''otelgen'', ''--otel-exporter-otlp-endpoint'', e, ''--rate'', str r,
        ''--service-name'', ''locol-test-generator'', ''--insecure'',
        ''--duration'', str n, ''metrics'', ''sum''],
       [''otelgen'', ''--otel-exporter-otlp-endpoint'', e, ''--rate'', str r,
        ''--service-name'', ''locol-test-generator'', ''--insecure'',
        ''--duration'', str n, ''logs'', ''multi'']])
    \<and> (n \<noteq> 0 \<and> invocations e r (Some m) = invocations e r (Some n) \<longrightarrow> m = n)"
  using invocations_duration_inj [of n e r m]
  by (simp add: invocations_eq base_cmd_None base_cmd_Some)

theorem duration_argument_witness:
  "(0::int) < 2 \<and> (0::int) < 30 \<and> (30::int) \<noteq> 0
   \<and> invocations ''collector:4317'' 2 None =
      [[''otelgen'', ''--otel-exporter-otlp-endpoint'', ''collector:4317'', ''--rate'', ''2'',
        ''--service-name'', ''locol-test-generator'', ''--insecure'', ''traces'', ''multi''],
       [''otelgen'', ''--otel-exporter-otlp-endpoint'', ''collector:4317'', ''--rate'', ''2'',
        ''--service-name'', ''locol-test-generator'', ''--insecure'', ''metrics'', ''sum''],
       [''otelgen'', ''--otel-exporter-otlp-endpoint'', ''collector:4317'', ''--rate'', ''2'',
        ''--service-name'', ''locol-test-generator'', ''--insecure'', ''logs'', ''multi'']]
   \<and> invocations ''collector:4317'' 2 (Some 30) =
      [[''otelgen'', ''--otel-exporter-otlp-endpoint'', ''collector:4317'', ''--rate'', ''2'',
        ''--service-name'', ''locol-test-generator'', ''--insecure'',
        ''--duration'', ''30'', ''traces'', ''multi''],
       [''otelgen'', ''--otel-exporter-otlp-endpoint'', ''collector:4317'', ''--rate'', ''2'',
        ''--service-name'', ''locol-test-generator'', ''--insecure'',
        ''--duration'', ''30'', ''metrics'', ''sum''],
       [''otelgen'', ''--otel-exporter-otlp-endpoint'', ''collector:4317'', ''--rate'', ''2'',
        ''--service-name'', ''locol-test-generator'', ''--insecure'',
        ''--duration'', ''30'', ''logs'', ''multi'']]"
proof -
  have "str 2 = ''2''" "str 30 = ''30''"
    by (simp_all add: str_def str_nat.simps digit_def)
  then show ?thesis
    using duration_argument [of 2 "''collector:4317''" 30 30] by simp
qed

text \<open>
  C9: a duration of 0 is treated as no duration: the command lines are those of a run
  without duration, the whole run is the same, and the startup output has no line for
  the duration.
\<close>

theorem zero_duration_as_absent:
  "invocations e r (Some 0) =
      [[''otelgen'', ''--otel-exporter-otlp-endpoint'', e, ''--rate'', str r,
        ''--service-name'', ''locol-test-generator'', ''--insecure'', ''traces'', ''multi''],
       [''otelgen'', ''--otel-exporter-otlp-endpoint'', e, ''--rate'', str r,
        ''--service-name'', ''locol-test-generator'', ''--insecure'', ''metrics'', ''sum''],
       [''otelgen'', ''--otel-exporter-otlp-endpoint'', e, ''--rate'', str r,
        ''--service-name'', ''locol-test-generator'', ''--insecure'', ''logs'', ''multi'']]
   \<and> invocations e r (Some 0) = invocations e r None
   \<and> run_otelgen w e r (Some 0) = run_otelgen w e r None
   \<and> startup_output \<lparr>endpoint = e, rate = r, duration = Some 0\<rparr> =
      [Print ''Starting telemetry generation...'',
       Print (''Endpoint: '' @ e),
       Print (''Rate: '' @ str r @ '' seconds''),
       Print (CHR 0x0A # ''Press Ctrl+C to stop'')]
   \<and> main w \<lparr>endpoint = e, rate = r, duration = Some 0\<rparr> =
      main w \<lparr>endpoint = e, rate = r, duration = None\<rparr>"
  by (simp add: invocations_eq base_cmd_zero base_cmd_None run_zero_duration startup_output_def
      main_def)

text \<open>
  C10, as the script has it: \<^verbatim>\<open>run_otelgen\<close> checks neither the rate nor the duration.
  For every integer rate, also 0 and below, and every duration other than 0, also
  negative, the command lines carry the numbers in decimal (with a minus sign for a
  negative one; different numbers give different strings); every run begins to launch,
  with these command lines, and starts all three children unless a launch raises.
\<close>

theorem no_validation:
  "invocations e r None =
      [[''otelgen'', ''--otel-exporter-otlp-endpoint'', e, ''--rate'', str r,
        ''--service-name'', ''locol-test-generator'', ''--insecure'', ''traces'', ''multi''],
       [''otelgen'', ''--otel-exporter-otlp-endpoint'', e, ''--rate'', str r,
        ''--service-name'', ''locol-test-generator'', ''--insecure'', ''metrics'', ''sum''],
       [''otelgen'', ''--otel-exporter-otlp-endpoint'', e, ''--rate'', str r,
        ''--service-name'', ''locol-test-generator'', ''--insecure'', ''logs'', ''multi'']]
   \<and> (n \<noteq> 0 \<longrightarrow> invocations e r (Some n) =
      [[''otelgen'', ''--otel-exporter-otlp-endpoint'', e, ''--rate'', str r,
        ''--service-name'', ''locol-test-generator'', ''--insecure'',
        ''--duration'', str n, ''traces'', ''multi''],
       [''otelgen'', ''--otel-exporter-otlp-endpoint'', e, ''--rate'', str r,
        ''--service-name'', ''locol-test-generator'', ''--insecure'',
        ''--duration'', str n, ''metrics'', ''sum''],
       [''otelgen'', ''--otel-exporter-otlp-endpoint'', e, ''--rate'', str r,
        ''--service-name'', ''locol-test-generator'', ''--insecure'',
        ''--duration'', str n, ''logs'', ''multi'']])
   \<and> (str a = str b \<longrightarrow> a = b)
   \<and> (i < 0 \<longrightarrow> str i = CHR ''-'' # str (- i))
   \<and> popen_calls (snd (run_otelgen w e r d)) \<noteq> []
   \<and> prefix (popen_calls (snd (run_otelgen w e r d))) (invocations e r d)
   \<and> ((\<forall>h<3. on_popen w h (invocations e r d ! h) = None) \<longrightarrow>
        map snd (spawned (snd (run_otelgen w e r d))) = invocations e r d)"
proof -
  have "map snd (spawned (snd (run_otelgen w e r d))) = invocations e r d"
    if "\<forall>h<3. on_popen w h (invocations e r d ! h) = None"
    using spawned_run_all [OF that] by (simp add: invocations_eq invocations_nth)
  then show ?thesis
    using popen_calls_run [of w e r d] str_inj [of a b] str_negative [of i]
    by (simp add: invocations_eq base_cmd_None base_cmd_Some)
qed

theorem no_validation_witness:
  "(- 7 :: int) \<noteq> 0 \<and> (- 3 :: int) \<le> 0
   \<and> on_popen quiet_world 0 (invocations ''localhost:4317'' (- 3) (Some (- 7)) ! 0) = None
   \<and> on_popen quiet_world 1 (invocations ''localhost:4317'' (- 3) (Some (- 7)) ! 1) = None
   \<and> on_popen quiet_world 2 (invocations ''localhost:4317'' (- 3) (Some (- 7)) ! 2) = None
   \<and> map snd (spawned (snd (run_otelgen quiet_world ''localhost:4317'' (- 3) (Some (- 7))))) =
      [[''otelgen'', ''--otel-exporter-otlp-endpoint'', ''localhost:4317'', ''--rate'', ''-3'',
        ''--service-name'', ''locol-test-generator'', ''--insecure'',
        ''--duration'', ''-7'', ''traces'', ''multi''],
       [''otelgen'', ''--otel-exporter-otlp-endpoint'', ''localhost:4317'', ''--rate'', ''-3'',
        ''--service-name'', ''locol-test-generator'', ''--insecure'',
        ''--duration'', ''-7'', ''metrics'', ''sum''],
       [''otelgen'', ''--otel-exporter-otlp-endpoint'', ''localhost:4317'', ''--rate'', ''-3'',
        ''--service-name'', ''locol-test-generator'', ''--insecure'',
        ''--duration'', ''-7'', ''logs'', ''multi'']]
   \<and> invocations ''localhost:4317'' 0 None =
      [[''otelgen'', ''--otel-exporter-otlp-endpoint'', ''localhost:4317'', ''--rate'', ''0'',
        ''--service-name'', ''locol-test-generator'', ''--insecure'', ''traces'', ''multi''],
       [''otelgen'', ''--otel-exporter-otlp-endpoint'', ''localhost:4317'', ''--rate'', ''0'',
        ''--service-name'', ''locol-test-generator'', ''--insecure'', ''metrics'', ''sum''],
       [''otelgen'', ''--otel-exporter-otlp-endpoint'', ''localhost:4317'', ''--rate'', ''0'',
        ''--service-name'', ''locol-test-generator'', ''--insecure'', ''logs'', ''multi'']]"
proof -
  have s: "str (- 3) = ''-3''" "str (- 7) = ''-7''" "str 0 = ''0''"
    by (simp_all add: str_def str_nat.simps digit_def)
  have "\<forall>h<3. on_popen quiet_world h (invocations ''localhost:4317'' (- 3) (Some (- 7)) ! h) = None"
    by (simp add: quiet_world_def)
  then show ?thesis
    using no_validation [of "''localhost:4317''" "- 3" "- 7" 0 0 0 quiet_world "Some (- 7)"]
      no_validation [of "''localhost:4317''" 0 1 0 0 0 quiet_world None]
    by (simp add: s quiet_world_def)
qed

text \<open>
  C10 as stated fails for a duration that is given and is 0: the run is not rejected, but
  the three children are started without a duration argument, and the string for 0
  occurs in none of their command lines.
\<close>

theorem zero_duration_dropped_counterexample:
  "map snd (spawned (snd (run_otelgen quiet_world ''localhost:4317'' 5 (Some 0)))) =
      [[''otelgen'', ''--otel-exporter-otlp-endpoint'', ''localhost:4317'', ''--rate'', ''5'',
        ''--service-name'', ''locol-test-generator'', ''--insecure'', ''traces'', ''multi''],
       [''otelgen'', ''--otel-exporter-otlp-endpoint'', ''localhost:4317'', ''--rate'', ''5'',
        ''--service-name'', ''locol-test-generator'', ''--insecure'', ''metrics'', ''sum''],
       [''otelgen'', ''--otel-exporter-otlp-endpoint'', ''localhost:4317'', ''--rate'', ''5'',
        ''--service-name'', ''locol-test-generator'', ''--insecure'', ''logs'', ''multi'']]
   \<and> str 0 = ''0''
   \<and> str 0 \<notin> set (invocations ''localhost:4317'' 5 (Some 0) ! 0)
   \<and> str 0 \<notin> set (invocations ''localhost:4317'' 5 (Some 0) ! 1)
   \<and> str 0 \<notin> set (invocations ''localhost:4317'' 5 (Some 0) ! 2)"
proof -
  have s: "str 5 = ''5''" "str 0 = ''0''"
    by (simp_all add: str_def str_nat.simps digit_def)
  have "\<forall>h<3. on_popen quiet_world h (invocations ''localhost:4317'' 5 (Some 0) ! h) = None"
    by (simp add: quiet_world_def)
  then have "spawned (snd (run_otelgen quiet_world ''localhost:4317'' 5 (Some 0))) =
      [(0, invocations ''localhost:4317'' 5 (Some 0) ! 0),
       (1, invocations ''localhost:4317'' 5 (Some 0) ! 1),
       (2, invocations ''localhost:4317'' 5 (Some 0) ! 2)]"
    by (rule spawned_run_all)
  then show ?thesis
    by (simp add: invocations_nth base_cmd_zero base_cmd_None s)
qed

end
